theory Spec2Isabelle
  imports Main "HOL-Library.AList"
begin

text \<open>
  A model of the sync-kv engine of \<^verbatim>\<open>SyncKV.ts\<close>: the client (local database, queue of
  optimistic mutations, subscriptions, \<^verbatim>\<open>onPull\<close>), the server (patch log, version,
  last-mutation-id table, \<^verbatim>\<open>pull\<close> and \<^verbatim>\<open>push\<close>) and the two transaction classes.
  Each method is a function from the object's state to its new state; what a method does
  to the outside (callbacks, requests, pokes) is returned as a list of effects in program
  order, and an exception is returned together with the state it leaves behind. Promises
  are not modelled: \<^verbatim>\<open>pull\<close> and \<^verbatim>\<open>push\<close> contain no \<^verbatim>\<open>await\<close>, so each runs to its end
  when it is called.
\<close>

section \<open>Values and objects\<close>

text \<open>
  The engine never inspects a value's shape; it only tests values for truthiness
  (\<^verbatim>\<open>a || b\<close>, \<^verbatim>\<open>if (!x)\<close>) and copies them. Numbers are modelled as integers
  (no NaN, no fractions); values are immutable, so a mutator that changes a value it read
  in place is outside the model.
\<close>

datatype jsvalue =
    JUndefined
  | JNull
  | JBool bool
  | JNum int
  | JStr string
  | JArr "jsvalue list"
  | JObj "(string \<times> jsvalue) list"

fun truthy :: "jsvalue \<Rightarrow> bool" where
  "truthy JUndefined = False"
| "truthy JNull = False"
| "truthy (JBool b) = b"
| "truthy (JNum n) = (n \<noteq> 0)"
| "truthy (JStr s) = (s \<noteq> [])"
| "truthy (JArr xs) = True"
| "truthy (JObj kvs) = True"

text \<open>
  \<^verbatim>\<open>type Patch = Record<string, any>\<close>: a plain object, modelled as the association list
  of its own properties in insertion order (the order \<^verbatim>\<open>Object.keys\<close> reports for
  non-numeric keys). The properties every object inherits from \<^verbatim>\<open>Object.prototype\<close>
  (\<^verbatim>\<open>toString\<close>, \<^verbatim>\<open>constructor\<close>, \<^verbatim>\<open>__proto__\<close> and the like) are not modelled: for
  those key names \<^verbatim>\<open>key in obj\<close> is true and \<^verbatim>\<open>obj[key]\<close> is the inherited value also
  when the object has no such property of its own, so what follows speaks of all other
  keys.
\<close>

type_synonym Patch = "(string \<times> jsvalue) list"
type_synonym Database = Patch

text \<open>\<^verbatim>\<open>key in obj\<close>, for a key that is not a property of \<^verbatim>\<open>Object.prototype\<close>.\<close>

definition has_key :: "string \<Rightarrow> Patch \<Rightarrow> bool" where
  "has_key k obj = (map_of obj k \<noteq> None)"

text \<open>
  \<^verbatim>\<open>obj[key]\<close>, for a key that is not a property of \<^verbatim>\<open>Object.prototype\<close>: a missing
  property reads as \<^verbatim>\<open>undefined\<close>.
\<close>

definition get_prop :: "Patch \<Rightarrow> string \<Rightarrow> jsvalue" where
  "get_prop obj k = (case map_of obj k of None \<Rightarrow> JUndefined | Some v \<Rightarrow> v)"

text \<open>\<^verbatim>\<open>obj[key] = value\<close>: an existing key keeps its place, a new key goes last.\<close>

definition set_prop :: "string \<Rightarrow> jsvalue \<Rightarrow> Patch \<Rightarrow> Patch" where
  "set_prop k v obj = AList.update k v obj"

definition object_keys :: "Patch \<Rightarrow> string list" where
  "object_keys obj = map fst obj"

text \<open>
  \<^verbatim>\<open>Object.assign(target, src)\<close>: for each own key of \<^verbatim>\<open>src\<close>, in order, read
  \<^verbatim>\<open>src[key]\<close> and store it in \<^verbatim>\<open>target\<close>.
\<close>

definition object_assign :: "Patch \<Rightarrow> Patch \<Rightarrow> Patch" where
  "object_assign target src = fold (\<lambda>k t. set_prop k (get_prop src k) t) (object_keys src) target"

text \<open>\<^verbatim>\<open>{ ...a, ...b }\<close>: a fresh object that receives \<^verbatim>\<open>a\<close>, then \<^verbatim>\<open>b\<close>.\<close>

definition spread2 :: "Patch \<Rightarrow> Patch \<Rightarrow> Patch" where
  "spread2 a b = object_assign (object_assign [] a) b"

section \<open>Mutators\<close>

text \<open>
  \<^verbatim>\<open>type AnyMutator = (tx: TransactionApi, ...args: any[]) => void\<close>. A mutator is opaque
  and deterministic; all it can do is call \<^verbatim>\<open>tx.get\<close>, call \<^verbatim>\<open>tx.set\<close>, return, or
  throw. It is modelled as the tree of those interactions.
\<close>

datatype mutprog =
    Done
  | TxGet string "jsvalue \<Rightarrow> mutprog"
  | TxSet string jsvalue mutprog
  | Raise

type_synonym AnyMutator = "jsvalue list \<Rightarrow> mutprog"
type_synonym AnyMutators = "string \<Rightarrow> AnyMutator option"

datatype error = TypeError | MutatorError

text \<open>
  Running a mutator against a \<^verbatim>\<open>TransactionApi\<close>, given as its \<^verbatim>\<open>get\<close> and
  \<^verbatim>\<open>set\<close>. An exception abandons the transaction.
\<close>

primrec run :: "('t \<Rightarrow> string \<Rightarrow> jsvalue) \<Rightarrow> ('t \<Rightarrow> string \<Rightarrow> jsvalue \<Rightarrow> 't) \<Rightarrow> mutprog \<Rightarrow> 't \<Rightarrow> error + 't" where
  "run g s Done = (\<lambda>tx. Inr tx)"
| "run g s (TxGet k f) = (\<lambda>tx. run g s (f (g tx k)) tx)"
| "run g s (TxSet k v p) = (\<lambda>tx. run g s p (s tx k v))"
| "run g s Raise = (\<lambda>tx. Inl MutatorError)"

text \<open>
  \<^verbatim>\<open>this.mutators[key](tx, ...args)\<close>: calling a name that is not in the registry is a
  TypeError.
\<close>

definition call_mutator ::
  "('t \<Rightarrow> string \<Rightarrow> jsvalue) \<Rightarrow> ('t \<Rightarrow> string \<Rightarrow> jsvalue \<Rightarrow> 't) \<Rightarrow> AnyMutators \<Rightarrow> string \<Rightarrow> jsvalue list \<Rightarrow> 't \<Rightarrow> error + 't" where
  "call_mutator g s mutators name as tx =
     (case mutators name of
        None \<Rightarrow> Inl TypeError
      | Some m \<Rightarrow> run g s (m as) tx)"

section \<open>Client-side transaction\<close>

text \<open>
  \<^verbatim>\<open>class Transaction\<close>. Its \<^verbatim>\<open>mutationId = randomId()\<close> is read only by
  \<^verbatim>\<open>mutate\<close>, where the generated id is an explicit argument.
\<close>

record Transaction =
  tx_db :: Database
  tx_patch :: Patch

definition new_Transaction :: "Database \<Rightarrow> Transaction" where
  "new_Transaction d = \<lparr>tx_db = d, tx_patch = []\<rparr>"

text \<open>\<^verbatim>\<open>return this.patch[key] || this.db[key]\<close>\<close>

definition Transaction_get :: "Transaction \<Rightarrow> string \<Rightarrow> jsvalue" where
  "Transaction_get tx k =
     (if truthy (get_prop (tx_patch tx) k) then get_prop (tx_patch tx) k else get_prop (tx_db tx) k)"

text \<open>\<^verbatim>\<open>this.patch[key] = value\<close>\<close>

definition Transaction_set :: "Transaction \<Rightarrow> string \<Rightarrow> jsvalue \<Rightarrow> Transaction" where
  "Transaction_set tx k v = tx\<lparr>tx_patch := set_prop k v (tx_patch tx)\<rparr>"

section \<open>Client\<close>

record Mutation =
  mutationId :: string
  key :: string
  args :: "jsvalue list"

record OptimisticMutationRecord = Mutation +
  patch :: Patch

text \<open>
  Subscription callbacks are opaque functions compared by identity; each is modelled by a
  number. A callback that calls back into the client while it runs is outside the model.
  The optional logger is left out: its calls touch no state.
\<close>

record SyncKVClient =
  db :: Database
  clientId :: string
  optimisticMutations :: "OptimisticMutationRecord list"
  cookie :: "int option"
  subscriptions :: "string \<Rightarrow> nat list option"
  pullQueued :: bool

text \<open>What a client does to the outside: callbacks invoked and requests sent.\<close>

datatype client_effect =
    Notify string jsvalue "nat list"
  | PullRequest string "int option"
  | PushRequest string "Mutation list"

text \<open>
  \<^verbatim>\<open>get(key)\<close>: the loop walks \<^verbatim>\<open>optimisticMutations\<close> from index 0 and returns at the
  first record whose patch has the key.
\<close>

fun get_loop :: "OptimisticMutationRecord list \<Rightarrow> string \<Rightarrow> jsvalue option" where
  "get_loop [] k = None"
| "get_loop (m # ms) k = (if has_key k (patch m) then Some (get_prop (patch m) k) else get_loop ms k)"

definition SyncKVClient_get :: "SyncKVClient \<Rightarrow> string \<Rightarrow> jsvalue" where
  "SyncKVClient_get c k =
     (case get_loop (optimisticMutations c) k of
        Some v \<Rightarrow> v
      | None \<Rightarrow> get_prop (db c) k)"

text \<open>
  \<^verbatim>\<open>emit(key)\<close>: reads the value, then calls the key's callbacks in order. The effect
  records the key, the value and the callbacks called (none when the key has no entry).
\<close>

definition emit :: "SyncKVClient \<Rightarrow> string \<Rightarrow> client_effect" where
  "emit c k =
     Notify k (SyncKVClient_get c k)
       (case subscriptions c k of None \<Rightarrow> [] | Some cbs \<Rightarrow> cbs)"

text \<open>\<^verbatim>\<open>poke()\<close>: dropped until the first pull has set the cookie.\<close>

definition poke :: "SyncKVClient \<Rightarrow> client_effect list" where
  "poke c =
     (case cookie c of
        None \<Rightarrow> []
      | Some ck \<Rightarrow> [PullRequest (clientId c) (Some ck)])"

text \<open>
  \<^verbatim>\<open>mutate.<name>(...args)\<close>, with the transaction's random id \<open>mid\<close> as an argument.
  The result is the exception (if any), the client afterwards and the effects in order.
\<close>

definition mutate ::
  "AnyMutators \<Rightarrow> string \<Rightarrow> string \<Rightarrow> jsvalue list \<Rightarrow> SyncKVClient
     \<Rightarrow> error option \<times> SyncKVClient \<times> client_effect list" where
  "mutate mutators mid name as c =
     (case call_mutator Transaction_get Transaction_set mutators name as (new_Transaction (db c)) of
        Inl e \<Rightarrow> (Some e, c, [])
      | Inr tx \<Rightarrow>
          (let mutation = \<lparr>mutationId = mid, key = name, args = as\<rparr>;
               entry = \<lparr>mutationId = mid, key = name, args = as, patch = tx_patch tx\<rparr>;
               c' = c\<lparr>optimisticMutations := optimisticMutations c @ [entry]\<rparr>
           in (None, c',
               map (emit c') (object_keys (tx_patch tx)) @ [PushRequest (clientId c) [mutation]])))"

text \<open>
  \<^verbatim>\<open>watch(key, callback)\<close>: appends to the key's array, or creates it. An array is
  truthy even when empty, so \<^verbatim>\<open>if (existing)\<close> asks only whether the key has an entry.
\<close>

definition watch :: "string \<Rightarrow> nat \<Rightarrow> SyncKVClient \<Rightarrow> SyncKVClient" where
  "watch k cb c =
     (case subscriptions c k of
        Some existing \<Rightarrow> c\<lparr>subscriptions := (subscriptions c)(k \<mapsto> existing @ [cb])\<rparr>
      | None \<Rightarrow> c\<lparr>subscriptions := (subscriptions c)(k \<mapsto> [cb])\<rparr>)"

text \<open>\<^verbatim>\<open>Array.prototype.indexOf\<close>: the first position, \<open>None\<close> for \<^verbatim>\<open>-1\<close>.\<close>

fun indexOf :: "'a list \<Rightarrow> 'a \<Rightarrow> nat option" where
  "indexOf [] x = None"
| "indexOf (y # ys) x = (if y = x then Some 0 else map_option Suc (indexOf ys x))"

text \<open>\<^verbatim>\<open>xs.splice(index, 1)\<close>\<close>

definition splice1 :: "nat \<Rightarrow> 'a list \<Rightarrow> 'a list" where
  "splice1 i xs = take i xs @ drop (Suc i) xs"

text \<open>The function returned by \<^verbatim>\<open>watch(key, callback)\<close>; it closes over both arguments.\<close>

definition unsubscribe :: "string \<Rightarrow> nat \<Rightarrow> SyncKVClient \<Rightarrow> SyncKVClient" where
  "unsubscribe k cb c =
     (case subscriptions c k of
        None \<Rightarrow> c
      | Some existing \<Rightarrow>
          (case indexOf existing cb of
             None \<Rightarrow> c
           | Some i \<Rightarrow> c\<lparr>subscriptions := (subscriptions c)(k \<mapsto> splice1 i existing)\<rparr>))"

text \<open>The response of \<^verbatim>\<open>pull\<close>: \<^verbatim>\<open>{ cookie, patch, lastMutationId? }\<close>.\<close>

record PullResponse =
  r_cookie :: int
  r_patch :: Patch
  r_lastMutationId :: "string option"

text \<open>\<^verbatim>\<open>Array.prototype.findIndex\<close>: the first position, \<open>None\<close> for \<^verbatim>\<open>-1\<close>.\<close>

fun findIndex :: "('a \<Rightarrow> bool) \<Rightarrow> 'a list \<Rightarrow> nat option" where
  "findIndex P [] = None"
| "findIndex P (x # xs) = (if P x then Some 0 else map_option Suc (findIndex P xs))"

text \<open>
  The rebase loop of \<^verbatim>\<open>onPull\<close> over the records after the acknowledged one. Each
  record's mutator runs on a fresh transaction over the (already updated) database; the
  record keeps everything but its patch, and the new patch is assigned into
  \<^verbatim>\<open>patchToEmit\<close>. An exception leaves the records not yet reached as they were.
\<close>

fun rebase ::
  "AnyMutators \<Rightarrow> Database \<Rightarrow> OptimisticMutationRecord list \<Rightarrow> Patch
     \<Rightarrow> error option \<times> OptimisticMutationRecord list \<times> Patch" where
  "rebase mutators d [] patchToEmit = (None, [], patchToEmit)"
| "rebase mutators d (m # ms) patchToEmit =
     (case call_mutator Transaction_get Transaction_set mutators (key m) (args m) (new_Transaction d) of
        Inl e \<Rightarrow> (Some e, m # ms, patchToEmit)
      | Inr tx \<Rightarrow>
          (case rebase mutators d ms (object_assign patchToEmit (tx_patch tx)) of
             (e, ms', patchToEmit') \<Rightarrow> (e, m\<lparr>patch := tx_patch tx\<rparr> # ms', patchToEmit')))"

text \<open>
  \<^verbatim>\<open>!lastMutationId\<close> holds for \<^verbatim>\<open>undefined\<close> and for the empty string.
\<close>

definition falsy_id :: "string option \<Rightarrow> bool" where
  "falsy_id l = (case l of None \<Rightarrow> True | Some m \<Rightarrow> m = [])"

text \<open>
  \<^verbatim>\<open>onPull\<close>. The result is the exception (if any), the client afterwards (with what was
  already written when the exception came) and the effects in order.
\<close>

definition onPull ::
  "AnyMutators \<Rightarrow> PullResponse \<Rightarrow> SyncKVClient
     \<Rightarrow> error option \<times> SyncKVClient \<times> client_effect list" where
  "onPull mutators r c =
     (if falsy_id (r_lastMutationId r) then
        (let c1 = c\<lparr>db := object_assign (db c) (r_patch r)\<rparr>;
             c2 = c1\<lparr>cookie := Some (r_cookie r)\<rparr>;
             es = map (emit c2) (object_keys (r_patch r))
         in if pullQueued c2
            then (let c3 = c2\<lparr>pullQueued := False\<rparr> in (None, c3, es @ poke c3))
            else (None, c2, es))
      else
        (case findIndex (\<lambda>m. Some (mutationId m) = r_lastMutationId r) (optimisticMutations c) of
           None \<Rightarrow> (None, c, [])
         | Some index \<Rightarrow>
             (let c1 = c\<lparr>db := object_assign (db c) (r_patch r)\<rparr>
              in case rebase mutators (db c1) (drop (Suc index) (optimisticMutations c1)) (r_patch r) of
                   (Some e, rebased, patchToEmit) \<Rightarrow>
                     (Some e,
                      c1\<lparr>optimisticMutations := take (Suc index) (optimisticMutations c1) @ rebased\<rparr>,
                      [])
                 | (None, rebased, patchToEmit) \<Rightarrow>
                     (let c2 = c1\<lparr>optimisticMutations := take (Suc index) (optimisticMutations c1) @ rebased\<rparr>;
                          c3 = c2\<lparr>optimisticMutations := drop (Suc index) (optimisticMutations c2)\<rparr>;
                          c4 = c3\<lparr>cookie := Some (r_cookie r)\<rparr>
                      in (None, c4, map (emit c4) (object_keys patchToEmit))))))"

text \<open>A client as the constructor leaves it, before the first pull has answered.\<close>

definition new_SyncKVClient :: "string \<Rightarrow> SyncKVClient" where
  "new_SyncKVClient cid =
     \<lparr>db = [], clientId = cid, optimisticMutations = [], cookie = None,
      subscriptions = (\<lambda>k. None), pullQueued = False\<rparr>"

section \<open>Server\<close>

record SyncKVServer =
  s_db :: "Patch list"
  version :: nat
  lastMutationIds :: "string \<Rightarrow> string option"
  clients :: "nat list"

text \<open>\<^verbatim>\<open>this.db = initialState ? [initialState] : []; this.version = this.db.length\<close>\<close>

definition new_SyncKVServer :: "Database option \<Rightarrow> SyncKVServer" where
  "new_SyncKVServer initialState =
     (let d = (case initialState of Some st \<Rightarrow> [st] | None \<Rightarrow> [])
      in \<lparr>s_db = d, version = length d, lastMutationIds = (\<lambda>c. None), clients = []\<rparr>)"

text \<open>
  The newest-first scan of \<^verbatim>\<open>SyncKVServer.get\<close> and \<^verbatim>\<open>ServerTransaction.get\<close>, over
  the log given newest first.
\<close>

fun scan :: "Patch list \<Rightarrow> string \<Rightarrow> jsvalue" where
  "scan [] k = JUndefined"
| "scan (p # ps) k = (if has_key k p then get_prop p k else scan ps k)"

definition SyncKVServer_get :: "SyncKVServer \<Rightarrow> string \<Rightarrow> jsvalue" where
  "SyncKVServer_get s k = scan (rev (s_db s)) k"

record ServerTransaction =
  stx_db :: "Patch list"
  stx_patch :: Patch

definition new_ServerTransaction :: "Patch list \<Rightarrow> ServerTransaction" where
  "new_ServerTransaction d = \<lparr>stx_db = d, stx_patch = []\<rparr>"

definition ServerTransaction_get :: "ServerTransaction \<Rightarrow> string \<Rightarrow> jsvalue" where
  "ServerTransaction_get tx k =
     (if has_key k (stx_patch tx) then get_prop (stx_patch tx) k else scan (rev (stx_db tx)) k)"

definition ServerTransaction_set :: "ServerTransaction \<Rightarrow> string \<Rightarrow> jsvalue \<Rightarrow> ServerTransaction" where
  "ServerTransaction_set tx k v = tx\<lparr>stx_patch := set_prop k v (stx_patch tx)\<rparr>"

text \<open>
  \<^verbatim>\<open>xs.slice(start)\<close> for an integer \<^verbatim>\<open>start\<close>: a negative start counts from the end,
  and the start is clamped to the array.
\<close>

definition js_slice :: "'a list \<Rightarrow> int \<Rightarrow> 'a list" where
  "js_slice xs start =
     (let n = int (length xs);
          k = (if start < 0 then max (n + start) 0 else min start n)
      in drop (nat k) xs)"

text \<open>
  \<^verbatim>\<open>pull(clientId, cookie = 0)\<close>. The table entry is deleted only when it is truthy
  (\<^verbatim>\<open>if (lastMutationId)\<close>); the response carries whatever \<^verbatim>\<open>get\<close> returned.
\<close>

definition SyncKVServer_pull ::
  "string \<Rightarrow> int option \<Rightarrow> SyncKVServer \<Rightarrow> SyncKVServer \<times> PullResponse" where
  "SyncKVServer_pull cid cookie_arg s =
     (let ck = (case cookie_arg of None \<Rightarrow> 0 | Some n \<Rightarrow> n);
          lastMutationId = lastMutationIds s cid;
          s' = (if falsy_id lastMutationId then s
                else s\<lparr>lastMutationIds := (lastMutationIds s)(cid := None)\<rparr>);
          patchesSinceCookie = js_slice (s_db s') ck;
          merged = foldl spread2 [] patchesSinceCookie
      in (s', \<lparr>r_cookie = int (length (s_db s')), r_patch = merged,
               r_lastMutationId = lastMutationId\<rparr>))"

text \<open>What a push does, in program order: its writes to the server and its pokes.\<close>

datatype server_effect =
    AppendPatch Patch
  | IncrementVersion
  | RecordLastMutationId string string
  | Poke nat

text \<open>\<^verbatim>\<open>for (const { key, args } of mutations) this.mutators[key](tx, ...args)\<close>\<close>

fun run_mutations :: "AnyMutators \<Rightarrow> Mutation list \<Rightarrow> ServerTransaction \<Rightarrow> error + ServerTransaction" where
  "run_mutations mutators [] tx = Inr tx"
| "run_mutations mutators (m # ms) tx =
     (case call_mutator ServerTransaction_get ServerTransaction_set mutators (key m) (args m) tx of
        Inl e \<Rightarrow> Inl e
      | Inr tx' \<Rightarrow> run_mutations mutators ms tx')"

definition pokeAllClients :: "SyncKVServer \<Rightarrow> server_effect list" where
  "pokeAllClients s = map Poke (clients s)"

text \<open>
  \<^verbatim>\<open>push(clientId, mutations)\<close>. A list that is \<^verbatim>\<open>undefined\<close> (\<open>None\<close>) makes
  \<^verbatim>\<open>for ... of\<close> throw; an empty list makes \<^verbatim>\<open>mutations[mutations.length - 1]\<close>
  \<^verbatim>\<open>undefined\<close>, whose \<^verbatim>\<open>.mutationId\<close> throws. The result is the exception (if any),
  the server as the call leaves it and the effects in order.
\<close>

definition SyncKVServer_push ::
  "AnyMutators \<Rightarrow> string \<Rightarrow> Mutation list option \<Rightarrow> SyncKVServer
     \<Rightarrow> error option \<times> SyncKVServer \<times> server_effect list" where
  "SyncKVServer_push mutators cid mutations s =
     (case mutations of
        None \<Rightarrow> (Some TypeError, s, [])
      | Some ms \<Rightarrow>
          (case run_mutations mutators ms (new_ServerTransaction (s_db s)) of
             Inl e \<Rightarrow> (Some e, s, [])
           | Inr tx \<Rightarrow>
               (let s1 = s\<lparr>s_db := s_db s @ [stx_patch tx]\<rparr>;
                    s2 = s1\<lparr>version := version s1 + 1\<rparr>;
                    written = [AppendPatch (stx_patch tx), IncrementVersion]
                in if ms = [] then (Some TypeError, s2, written)
                   else
                     (let lastMutationId = mutationId (last ms);
                          s3 = s2\<lparr>lastMutationIds := (lastMutationIds s2)(cid \<mapsto> lastMutationId)\<rparr>
                      in (None, s3,
                          written @ [RecordLastMutationId cid lastMutationId] @ pokeAllClients s3)))))"

section \<open>The test suite's mutator\<close>

text \<open>
  \<^verbatim>\<open>add: (tx, x) => { const value = tx.get("value") ?? 0; tx.set("value", value + x) }\<close>.
  The suite stores numbers only; for any other stored value or argument JavaScript would
  coerce, which is not modelled: the program stops there.
\<close>

definition add_mutator :: AnyMutator where
  "add_mutator as =
     (case as of
        [JNum x] \<Rightarrow>
          TxGet ''value'' (\<lambda>v.
            case v of
              JUndefined \<Rightarrow> TxSet ''value'' (JNum (0 + x)) Done
            | JNull \<Rightarrow> TxSet ''value'' (JNum (0 + x)) Done
            | JNum n \<Rightarrow> TxSet ''value'' (JNum (n + x)) Done
            | _ \<Rightarrow> Raise)
      | _ \<Rightarrow> Raise)"

definition test_mutators :: AnyMutators where
  "test_mutators name = (if name = ''add'' then Some add_mutator else None)"

section \<open>A registry with an asserting mutator\<close>

text \<open>
  The registry is supplied by the user of the library. Next to the suite's \<^verbatim>\<open>add\<close>, this
  one holds a mutator that asserts on what it reads, as a user may write it:
  \<^verbatim>\<open>claim: (tx, who) => { if (tx.get("owner")) throw new Error("taken"); tx.set("owner", who) }\<close>.
  A missing argument is \<^verbatim>\<open>undefined\<close>; further arguments are ignored.
\<close>

definition claim_mutator :: AnyMutator where
  "claim_mutator as =
     TxGet ''owner'' (\<lambda>v.
       if truthy v then Raise
       else TxSet ''owner'' (case as of [] \<Rightarrow> JUndefined | who # rest \<Rightarrow> who) Done)"

definition claim_mutators :: AnyMutators where
  "claim_mutators name =
     (if name = ''add'' then Some add_mutator
      else if name = ''claim'' then Some claim_mutator
      else None)"

section \<open>Reading a key on the client\<close>

text \<open>
  The lemmas on reading are about keys that are not properties of \<^verbatim>\<open>Object.prototype\<close>,
  as \<open>has_key\<close> and \<open>get_prop\<close> are.
\<close>

lemma get_prop_missing: "\<not> has_key k obj \<Longrightarrow> get_prop obj k = JUndefined"
  by (simp add: has_key_def get_prop_def)

lemma get_loop_find:
  "get_loop ms k = map_option (\<lambda>m. get_prop (patch m) k) (find (\<lambda>m. has_key k (patch m)) ms)"
  by (induction ms) auto

text \<open>
  What \<^verbatim>\<open>get\<close> computes for such a key: the value in the first record of the queue
  (the oldest pending mutation) whose patch has the key, else the database's value.
\<close>

lemma SyncKVClient_get_oldest_hit:
  "SyncKVClient_get c k =
     (case find (\<lambda>m. has_key k (patch m)) (optimisticMutations c) of
        Some m \<Rightarrow> get_prop (patch m) k
      | None \<Rightarrow> get_prop (db c) k)"
  by (simp add: SyncKVClient_get_def get_loop_find split: option.splits)

text \<open>
  C1 (the effective value of a key is that of the newest optimistic record whose patch has
  the key). The code returns the oldest such record's value instead. After the first pull,
  \<^verbatim>\<open>mutate.add(2)\<close> and \<^verbatim>\<open>mutate.add(3)\<close> leave two pending records with patches
  \<^verbatim>\<open>{value: 2}\<close> and \<^verbatim>\<open>{value: 3}\<close>; \<^verbatim>\<open>get("value")\<close> is 2, the older one's value.
\<close>

theorem get_returns_oldest_record:
  "(let c0 = fst (snd (onPull test_mutators \<lparr>r_cookie = 0, r_patch = [], r_lastMutationId = None\<rparr>
                        (new_SyncKVClient ''c'')));
        c1 = fst (snd (mutate test_mutators ''m1'' ''add'' [JNum 2] c0));
        c2 = fst (snd (mutate test_mutators ''m2'' ''add'' [JNum 3] c1))
    in map patch (optimisticMutations c2) = [[(''value'', JNum 2)], [(''value'', JNum 3)]]
       \<and> SyncKVClient_get c2 ''value'' = JNum 2)"
  by (simp add: onPull_def falsy_id_def new_SyncKVClient_def object_assign_def object_keys_def
      mutate_def call_mutator_def test_mutators_def add_mutator_def new_Transaction_def
      Transaction_get_def Transaction_set_def get_prop_def set_prop_def SyncKVClient_get_def
      has_key_def Let_def)

section \<open>Reading a key inside a client transaction\<close>

text \<open>
  What \<^verbatim>\<open>Transaction.get\<close> computes after a write to the same key: the written value
  when it is truthy, the database's value otherwise.
\<close>

lemma Transaction_get_after_set:
  "Transaction_get (Transaction_set tx k v) k = (if truthy v then v else get_prop (tx_db tx) k)"
  by (simp add: Transaction_get_def Transaction_set_def get_prop_def set_prop_def AList.update_conv')

text \<open>
  C2 (\<^verbatim>\<open>tx.get(k)\<close> returns the patch's value whenever \<^verbatim>\<open>k\<close> was set, falsy values
  included). Over the database \<^verbatim>\<open>{value: 5}\<close>, after \<^verbatim>\<open>tx.set("value", 0)\<close> the code
  returns 5: \<^verbatim>\<open>0 || 5\<close>.
\<close>

theorem Transaction_get_loses_falsy_write:
  "Transaction_get (Transaction_set (new_Transaction [(''value'', JNum 5)]) ''value'' (JNum 0)) ''value''
     = JNum 5"
  by (simp add: Transaction_get_def Transaction_set_def new_Transaction_def get_prop_def set_prop_def)

section \<open>Push with no mutations\<close>

text \<open>
  C5 as stated (a push with a missing or empty list leaves the log, the version and the
  table unchanged) fails for the empty list: the exception comes after the append.
\<close>

theorem push_empty_list_counterexample:
  "s_db (fst (snd (SyncKVServer_push test_mutators ''c'' (Some []) (new_SyncKVServer None))))
     \<noteq> s_db (new_SyncKVServer None)"
  by (simp add: SyncKVServer_push_def new_SyncKVServer_def new_ServerTransaction_def)

text \<open>
  C5, amended. A push with a missing list throws before anything is written. A push with an
  empty list throws as well, whatever the registry holds (no mutator runs), with no poke
  and with the last-mutation-id table as it was; but by then it has appended an empty
  patch to the log and incremented the version.
\<close>

theorem push_missing_or_empty:
  "SyncKVServer_push mutators cid None s = (Some TypeError, s, [])
   \<and> SyncKVServer_push mutators cid (Some []) s =
       (Some TypeError, s\<lparr>s_db := s_db s @ [[]], version := version s + 1\<rparr>,
        [AppendPatch [], IncrementVersion])"
  by (simp add: SyncKVServer_push_def new_ServerTransaction_def)

section \<open>Pull consumes the pending acknowledgement\<close>

text \<open>
  For every entry but the empty string, \<^verbatim>\<open>pull\<close> does consume: with no entry for the
  client, the response has no \<^verbatim>\<open>lastMutationId\<close> and the server is unchanged; with a
  non-empty entry, the response carries it, the pull removes exactly that entry, and the
  same client's next pull carries none.
\<close>

lemma pull_consumes_lastMutationId:
  "(lastMutationIds s cid = None \<longrightarrow>
      r_lastMutationId (snd (SyncKVServer_pull cid ck s)) = None
      \<and> fst (SyncKVServer_pull cid ck s) = s)
   \<and> (\<forall>m. lastMutationIds s cid = Some m \<and> m \<noteq> [] \<longrightarrow>
        r_lastMutationId (snd (SyncKVServer_pull cid ck s)) = Some m
        \<and> fst (SyncKVServer_pull cid ck s) = s\<lparr>lastMutationIds := (lastMutationIds s)(cid := None)\<rparr>
        \<and> r_lastMutationId (snd (SyncKVServer_pull cid ck' (fst (SyncKVServer_pull cid ck s)))) = None)"
  by (simp add: SyncKVServer_pull_def falsy_id_def Let_def)

text \<open>
  What other clients do in between does not bring the entry back: a pull or a push by
  another client leaves this client's entry as it is.
\<close>

lemma pull_other_client:
  "cid' \<noteq> cid \<Longrightarrow>
     lastMutationIds (fst (SyncKVServer_pull cid' ck s)) cid = lastMutationIds s cid"
  by (simp add: SyncKVServer_pull_def falsy_id_def Let_def)

lemma push_other_client:
  "cid' \<noteq> cid \<Longrightarrow>
     lastMutationIds (fst (snd (SyncKVServer_push mutators cid' mutations s))) cid
       = lastMutationIds s cid"
  by (simp add: SyncKVServer_push_def Let_def split: option.splits sum.splits)

lemma pull_consumes_lastMutationId_example:
  "(let s = fst (snd (SyncKVServer_push test_mutators ''c''
                   (Some [\<lparr>mutationId = ''m1'', key = ''add'', args = [JNum 1]\<rparr>]) (new_SyncKVServer None)))
    in lastMutationIds s ''c'' = Some ''m1''
       \<and> r_lastMutationId (snd (SyncKVServer_pull ''c'' None s)) = Some ''m1''
       \<and> lastMutationIds (fst (SyncKVServer_pull ''c'' None s)) ''c'' = None
       \<and> r_lastMutationId (snd (SyncKVServer_pull ''c'' (Some 1) (fst (SyncKVServer_pull ''c'' None s)))) = None)"
  by (simp add: SyncKVServer_push_def SyncKVServer_pull_def new_SyncKVServer_def
      new_ServerTransaction_def call_mutator_def test_mutators_def add_mutator_def
      ServerTransaction_get_def ServerTransaction_set_def has_key_def falsy_id_def Let_def)

text \<open>
  C7 (a pull reports the client's pending \<^verbatim>\<open>lastMutationId\<close> and removes it, so the
  client's next pull carries none). The code removes the entry under
  \<^verbatim>\<open>if (lastMutationId)\<close>, which the empty string does not pass: after a push whose last
  mutation has the id \<^verbatim>\<open>""\<close>, the sender's pull reports \<^verbatim>\<open>""\<close>, the entry is still in
  the table afterwards, and the sender's next pull reports it again.
\<close>

theorem pull_keeps_empty_id:
  "(let s = fst (snd (SyncKVServer_push test_mutators ''c''
                   (Some [\<lparr>mutationId = '''', key = ''add'', args = [JNum 1]\<rparr>]) (new_SyncKVServer None)));
        s' = fst (SyncKVServer_pull ''c'' None s)
    in lastMutationIds s ''c'' = Some ''''
       \<and> r_lastMutationId (snd (SyncKVServer_pull ''c'' None s)) = Some ''''
       \<and> lastMutationIds s' ''c'' = Some ''''
       \<and> r_lastMutationId (snd (SyncKVServer_pull ''c'' (Some 1) s')) = Some '''')"
  by (simp add: SyncKVServer_push_def SyncKVServer_pull_def new_SyncKVServer_def
      new_ServerTransaction_def call_mutator_def test_mutators_def add_mutator_def
      ServerTransaction_get_def ServerTransaction_set_def has_key_def falsy_id_def Let_def)

section \<open>Push writes before it pokes\<close>

text \<open>
  C8. A push succeeds exactly when the list is present and non-empty and every mutator
  returns. Then its effects are, in this order: the append of the batch's patch (the one the
  mutators built on one server transaction over the log), the version increment, the
  recording of the batch's last mutation id for the sender, and only then one poke per
  registered handle; the server it leaves holds exactly these three writes. So every poke
  comes after the three writes, whether or not any handle is registered. A push that
  throws pokes nobody.
\<close>

theorem push_writes_before_pokes:
  "(\<forall>ms tx. mutations = Some ms \<and> ms \<noteq> []
        \<and> run_mutations mutators ms (new_ServerTransaction (s_db s)) = Inr tx \<longrightarrow>
      SyncKVServer_push mutators cid mutations s =
        (None,
         s\<lparr>s_db := s_db s @ [stx_patch tx], version := version s + 1,
           lastMutationIds := (lastMutationIds s)(cid \<mapsto> mutationId (last ms))\<rparr>,
         [AppendPatch (stx_patch tx), IncrementVersion,
          RecordLastMutationId cid (mutationId (last ms))] @ map Poke (clients s)))
   \<and> (fst (SyncKVServer_push mutators cid mutations s) = None \<longrightarrow>
        (\<exists>ms tx. mutations = Some ms \<and> ms \<noteq> []
           \<and> run_mutations mutators ms (new_ServerTransaction (s_db s)) = Inr tx))
   \<and> (fst (SyncKVServer_push mutators cid mutations s) \<noteq> None \<longrightarrow>
        (\<forall>h. Poke h \<notin> set (snd (snd (SyncKVServer_push mutators cid mutations s)))))
   \<and> (\<forall>j h. j < length (snd (snd (SyncKVServer_push mutators cid mutations s)))
          \<and> snd (snd (SyncKVServer_push mutators cid mutations s)) ! j = Poke h \<longrightarrow>
        fst (SyncKVServer_push mutators cid mutations s) = None \<and> 3 \<le> j)"
proof (intro conjI allI impI)
  fix ms tx
  assume "mutations = Some ms \<and> ms \<noteq> []
        \<and> run_mutations mutators ms (new_ServerTransaction (s_db s)) = Inr tx"
  then show "SyncKVServer_push mutators cid mutations s =
        (None,
         s\<lparr>s_db := s_db s @ [stx_patch tx], version := version s + 1,
           lastMutationIds := (lastMutationIds s)(cid \<mapsto> mutationId (last ms))\<rparr>,
         [AppendPatch (stx_patch tx), IncrementVersion,
          RecordLastMutationId cid (mutationId (last ms))] @ map Poke (clients s))"
    by (simp add: SyncKVServer_push_def Let_def pokeAllClients_def)
next
  assume "fst (SyncKVServer_push mutators cid mutations s) = None"
  then show "\<exists>ms tx. mutations = Some ms \<and> ms \<noteq> []
           \<and> run_mutations mutators ms (new_ServerTransaction (s_db s)) = Inr tx"
    by (auto simp: SyncKVServer_push_def Let_def split: option.splits sum.splits if_splits)
next
  fix h
  assume "fst (SyncKVServer_push mutators cid mutations s) \<noteq> None"
  then show "Poke h \<notin> set (snd (snd (SyncKVServer_push mutators cid mutations s)))"
    by (auto simp: SyncKVServer_push_def Let_def split: option.splits sum.splits if_splits)
next
  fix j h
  assume p: "j < length (snd (snd (SyncKVServer_push mutators cid mutations s)))
          \<and> snd (snd (SyncKVServer_push mutators cid mutations s)) ! j = Poke h"
  then have "Poke h \<in> set (snd (snd (SyncKVServer_push mutators cid mutations s)))"
    by (metis nth_mem)
  then show "fst (SyncKVServer_push mutators cid mutations s) = None"
    by (auto simp: SyncKVServer_push_def Let_def split: option.splits sum.splits if_splits)
  show "3 \<le> j"
  proof (rule ccontr)
    assume "\<not> 3 \<le> j"
    then have "j = 0 \<or> j = 1 \<or> j = 2" by arith
    with p show False
      by (auto simp: SyncKVServer_push_def Let_def split: option.splits sum.splits if_splits)
  qed
qed

theorem push_writes_before_pokes_witness:
  "(let s = (new_SyncKVServer None)\<lparr>clients := [10, 11]\<rparr>;
        ms = [\<lparr>mutationId = ''m1'', key = ''add'', args = [JNum 1]\<rparr>]
    in SyncKVServer_push test_mutators ''c'' (Some ms) s =
         (None,
          s\<lparr>s_db := [[(''value'', JNum 1)]], version := 1,
            lastMutationIds := (lastMutationIds s)(''c'' \<mapsto> ''m1'')\<rparr>,
          [AppendPatch [(''value'', JNum 1)], IncrementVersion,
           RecordLastMutationId ''c'' ''m1'', Poke 10, Poke 11])
       \<and> SyncKVServer_push test_mutators ''c'' (Some ms) (new_SyncKVServer None) =
         (None,
          (new_SyncKVServer None)\<lparr>s_db := [[(''value'', JNum 1)]], version := 1,
            lastMutationIds := (lastMutationIds (new_SyncKVServer None))(''c'' \<mapsto> ''m1'')\<rparr>,
          [AppendPatch [(''value'', JNum 1)], IncrementVersion,
           RecordLastMutationId ''c'' ''m1''])
       \<and> fst (SyncKVServer_push test_mutators ''c'' (Some []) s) = Some TypeError
       \<and> Poke 10 \<notin> set (snd (snd (SyncKVServer_push test_mutators ''c'' (Some []) s))))"
proof -
  define s where "s = (new_SyncKVServer None)\<lparr>clients := [10, 11]\<rparr>"
  define s0 where "s0 = new_SyncKVServer None"
  define ms where "ms = [\<lparr>mutationId = ''m1'', key = ''add'', args = [JNum 1]\<rparr>]"
  define tx where "tx = \<lparr>stx_db = [], stx_patch = [(''value'', JNum 1)]\<rparr>"
  have run: "run_mutations test_mutators ms (new_ServerTransaction (s_db s)) = Inr tx"
    and run0: "run_mutations test_mutators ms (new_ServerTransaction (s_db s0)) = Inr tx"
    by (simp_all add: s_def s0_def ms_def tx_def new_SyncKVServer_def new_ServerTransaction_def
        call_mutator_def test_mutators_def add_mutator_def ServerTransaction_get_def
        ServerTransaction_set_def has_key_def set_prop_def)
  have ne: "ms \<noteq> []" by (simp add: ms_def)
  from push_writes_before_pokes[of "Some ms" test_mutators s "''c''"] run ne
  have a: "SyncKVServer_push test_mutators ''c'' (Some ms) s =
        (None,
         s\<lparr>s_db := s_db s @ [stx_patch tx], version := version s + 1,
           lastMutationIds := (lastMutationIds s)(''c'' \<mapsto> mutationId (last ms))\<rparr>,
         [AppendPatch (stx_patch tx), IncrementVersion,
          RecordLastMutationId ''c'' (mutationId (last ms))] @ map Poke (clients s))"
    by blast
  from push_writes_before_pokes[of "Some ms" test_mutators s0 "''c''"] run0 ne
  have b: "SyncKVServer_push test_mutators ''c'' (Some ms) s0 =
        (None,
         s0\<lparr>s_db := s_db s0 @ [stx_patch tx], version := version s0 + 1,
           lastMutationIds := (lastMutationIds s0)(''c'' \<mapsto> mutationId (last ms))\<rparr>,
         [AppendPatch (stx_patch tx), IncrementVersion,
          RecordLastMutationId ''c'' (mutationId (last ms))] @ map Poke (clients s0))"
    by blast
  have f: "fst (SyncKVServer_push test_mutators ''c'' (Some []) s) = Some TypeError"
    by (simp add: SyncKVServer_push_def new_ServerTransaction_def)
  then have "fst (SyncKVServer_push test_mutators ''c'' (Some []) s) \<noteq> None" by simp
  with push_writes_before_pokes[of "Some []" test_mutators s "''c''"]
  have n: "Poke 10 \<notin> set (snd (snd (SyncKVServer_push test_mutators ''c'' (Some []) s)))"
    by blast
  have a': "SyncKVServer_push test_mutators ''c'' (Some ms) s =
         (None,
          s\<lparr>s_db := [[(''value'', JNum 1)]], version := 1,
            lastMutationIds := (lastMutationIds s)(''c'' \<mapsto> ''m1'')\<rparr>,
          [AppendPatch [(''value'', JNum 1)], IncrementVersion,
           RecordLastMutationId ''c'' ''m1'', Poke 10, Poke 11])"
    by (subst a) (simp add: s_def ms_def tx_def new_SyncKVServer_def)
  have b': "SyncKVServer_push test_mutators ''c'' (Some ms) s0 =
         (None,
          s0\<lparr>s_db := [[(''value'', JNum 1)]], version := 1,
            lastMutationIds := (lastMutationIds s0)(''c'' \<mapsto> ''m1'')\<rparr>,
          [AppendPatch [(''value'', JNum 1)], IncrementVersion,
           RecordLastMutationId ''c'' ''m1''])"
    by (subst b) (simp add: s0_def ms_def tx_def new_SyncKVServer_def)
  from a'[unfolded s_def] b'[unfolded s0_def] f[unfolded s_def] n[unfolded s_def]
  show ?thesis
    unfolding ms_def[symmetric] Let_def by blast
qed

section \<open>Unsubscribing\<close>

lemma indexOf_None: "indexOf xs x = None \<longleftrightarrow> x \<notin> set xs"
  by (induction xs) auto

lemma indexOf_splice1: "indexOf xs x = Some i \<Longrightarrow> splice1 i xs = remove1 x xs"
proof (induction xs arbitrary: i)
  case Nil
  then show ?case by simp
next
  case (Cons y ys)
  show ?case
  proof (cases "y = x")
    case True
    with Cons.prems show ?thesis by (simp add: splice1_def)
  next
    case False
    with Cons.prems obtain j where j: "indexOf ys x = Some j" "i = Suc j" by auto
    from Cons.IH[OF j(1)] have "take j ys @ drop (Suc j) ys = remove1 x ys"
      by (simp add: splice1_def)
    with False j show ?thesis by (simp add: splice1_def)
  qed
qed

text \<open>One call removes the first entry of the callback under the key, if there is one.\<close>

lemma unsubscribe_subscriptions:
  "subscriptions (unsubscribe k cb c) =
     (subscriptions c)(k := map_option (remove1 cb) (subscriptions c k))"
proof (cases "subscriptions c k")
  case None
  then show ?thesis by (auto simp: unsubscribe_def)
next
  case (Some existing)
  show ?thesis
  proof (cases "indexOf existing cb")
    case None
    then have "cb \<notin> set existing" by (simp add: indexOf_None)
    then have "remove1 cb existing = existing" by (simp add: remove1_idem)
    with Some None show ?thesis by (auto simp: unsubscribe_def)
  next
    case (Some i)
    with \<open>subscriptions c k = Some existing\<close> indexOf_splice1[OF Some]
    show ?thesis by (auto simp: unsubscribe_def)
  qed
qed

lemma unsubscribe_other_fields:
  "unsubscribe k cb c = c\<lparr>subscriptions := subscriptions (unsubscribe k cb c)\<rparr>"
  by (simp add: unsubscribe_def split: option.splits)

lemma count_list_remove1:
  "count_list (remove1 x xs) x = count_list xs x - 1"
  by (induction xs) auto

lemma remove1_twice_iff:
  "remove1 x (remove1 x xs) = remove1 x xs \<longleftrightarrow> count_list xs x \<le> 1"
proof
  assume eq: "remove1 x (remove1 x xs) = remove1 x xs"
  show "count_list xs x \<le> 1"
  proof (rule ccontr)
    assume "\<not> count_list xs x \<le> 1"
    moreover have "count_list (remove1 x xs) x = count_list xs x - 1"
      by (rule count_list_remove1)
    ultimately have "count_list (remove1 x xs) x \<noteq> 0" by arith
    then have "x \<in> set (remove1 x xs)" using count_list_0_iff[of "remove1 x xs" x] by simp
    then have "length (remove1 x (remove1 x xs)) < length (remove1 x xs)"
      using length_pos_if_in_set[of x "remove1 x xs"] by (simp add: length_remove1)
    with eq show False by simp
  qed
next
  assume "count_list xs x \<le> 1"
  moreover have "count_list (remove1 x xs) x = count_list xs x - 1"
    by (rule count_list_remove1)
  ultimately have "count_list (remove1 x xs) x = 0" by arith
  then have "x \<notin> set (remove1 x xs)" using count_list_0_iff[of "remove1 x xs" x] by simp
  then show "remove1 x (remove1 x xs) = remove1 x xs" by (simp add: remove1_idem)
qed

text \<open>
  C9 as stated (calling the returned unsubscribe function twice is the same as calling it
  once, also for a callback registered more than once under the key) fails: the function
  looks the callback up by identity, so after \<^verbatim>\<open>watch("value", cb)\<close> twice, its second
  call removes the other registration.
\<close>

theorem unsubscribe_twice_counterexample:
  "unsubscribe ''value'' 7 (unsubscribe ''value'' 7
      (watch ''value'' 7 (watch ''value'' 7 (new_SyncKVClient ''c''))))
   \<noteq> unsubscribe ''value'' 7 (watch ''value'' 7 (watch ''value'' 7 (new_SyncKVClient ''c'')))"
proof
  assume "unsubscribe ''value'' 7 (unsubscribe ''value'' 7
      (watch ''value'' 7 (watch ''value'' 7 (new_SyncKVClient ''c''))))
   = unsubscribe ''value'' 7 (watch ''value'' 7 (watch ''value'' 7 (new_SyncKVClient ''c'')))"
  then have "subscriptions (unsubscribe ''value'' 7 (unsubscribe ''value'' 7
      (watch ''value'' 7 (watch ''value'' 7 (new_SyncKVClient ''c''))))) ''value''
   = subscriptions (unsubscribe ''value'' 7 (watch ''value'' 7 (watch ''value'' 7 (new_SyncKVClient ''c'')))) ''value''"
    by simp
  then show False
    by (simp add: unsubscribe_def watch_def new_SyncKVClient_def splice1_def)
qed

text \<open>
  C9, amended. A call of the unsubscribe function changes nothing but the key's entry list,
  from which it removes the first entry of the callback if there is one (so at most one
  entry per call). Calling it twice is the same as calling it once exactly when the
  callback has at most one entry under the key at the first call; with more, the second
  call removes a further entry.
\<close>

theorem unsubscribe_removes_one:
  "unsubscribe k cb c =
     c\<lparr>subscriptions := (subscriptions c)(k := map_option (remove1 cb) (subscriptions c k))\<rparr>
   \<and> (unsubscribe k cb (unsubscribe k cb c) = unsubscribe k cb c
        \<longleftrightarrow> (case subscriptions c k of None \<Rightarrow> True
                                          | Some existing \<Rightarrow> count_list existing cb \<le> 1))"
proof
  show one: "unsubscribe k cb c =
     c\<lparr>subscriptions := (subscriptions c)(k := map_option (remove1 cb) (subscriptions c k))\<rparr>"
    using unsubscribe_other_fields[of k cb c] by (simp add: unsubscribe_subscriptions)
  let ?c' = "unsubscribe k cb c"
  have "unsubscribe k cb ?c' = ?c' \<longleftrightarrow> subscriptions (unsubscribe k cb ?c') = subscriptions ?c'"
  proof
    assume "subscriptions (unsubscribe k cb ?c') = subscriptions ?c'"
    then show "unsubscribe k cb ?c' = ?c'"
      using unsubscribe_other_fields[of k cb ?c'] by simp
  qed simp
  also have "\<dots> \<longleftrightarrow> subscriptions (unsubscribe k cb ?c') k = subscriptions ?c' k"
    by (auto simp: unsubscribe_subscriptions fun_eq_iff)
  also have "\<dots> \<longleftrightarrow> (case subscriptions c k of None \<Rightarrow> True
                                          | Some existing \<Rightarrow> count_list existing cb \<le> 1)"
    by (simp add: unsubscribe_subscriptions remove1_twice_iff split: option.splits)
  finally show "unsubscribe k cb ?c' = ?c'
        \<longleftrightarrow> (case subscriptions c k of None \<Rightarrow> True
                                          | Some existing \<Rightarrow> count_list existing cb \<le> 1)" .
qed

theorem unsubscribe_removes_one_witness:
  "(let c = watch ''value'' 7 (watch ''value'' 8 (new_SyncKVClient ''c''))
    in subscriptions c ''value'' = Some [8, 7]
       \<and> subscriptions (unsubscribe ''value'' 7 c) ''value'' = Some [8]
       \<and> subscriptions (unsubscribe ''value'' 7 c) ''other'' = subscriptions c ''other''
       \<and> unsubscribe ''value'' 7 (unsubscribe ''value'' 7 c) = unsubscribe ''value'' 7 c)"
proof -
  define c where "c = watch ''value'' 7 (watch ''value'' 8 (new_SyncKVClient ''c''))"
  have subs: "subscriptions c ''value'' = Some [8, 7]"
    by (simp add: c_def watch_def new_SyncKVClient_def)
  then have once: "case subscriptions c ''value'' of None \<Rightarrow> True
                   | Some existing \<Rightarrow> count_list existing (7::nat) \<le> 1"
    by simp
  note removes = unsubscribe_removes_one[of "''value''" 7 c]
  from removes once
  have idem: "unsubscribe ''value'' 7 (unsubscribe ''value'' 7 c) = unsubscribe ''value'' 7 c"
    by blast
  from removes have eq: "unsubscribe ''value'' 7 c =
      c\<lparr>subscriptions := (subscriptions c)(''value'' := map_option (remove1 7) (subscriptions c ''value''))\<rparr>"
    by blast
  have a: "subscriptions (unsubscribe ''value'' 7 c) ''value'' = Some [8]"
    by (subst eq) (simp add: subs)
  have b: "subscriptions (unsubscribe ''value'' 7 c) ''other'' = subscriptions c ''other''"
    by (subst eq) simp
  from subs a b idem show ?thesis unfolding c_def[symmetric] Let_def by blast
qed

section \<open>Acknowledgement of an unknown mutation\<close>

lemma findIndex_None: "findIndex P xs = None \<longleftrightarrow> (\<forall>x\<in>set xs. \<not> P x)"
  by (induction xs) auto

lemma findIndex_first:
  "i < length xs \<Longrightarrow> P (xs ! i) \<Longrightarrow> (\<forall>j<i. \<not> P (xs ! j)) \<Longrightarrow> findIndex P xs = Some i"
proof (induction xs arbitrary: i)
  case Nil
  then show ?case by simp
next
  case (Cons x xs)
  show ?case
  proof (cases i)
    case 0
    with Cons.prems show ?thesis by simp
  next
    case (Suc n)
    with Cons.prems have "\<not> P x" by auto
    moreover from Suc Cons.prems have "findIndex P xs = Some n"
      by (intro Cons.IH) auto
    ultimately show ?thesis using Suc by simp
  qed
qed

text \<open>
  For every id but the empty string, an acknowledgement that matches no record is ignored:
  \<^verbatim>\<open>onPull\<close> returns normally, the client (database, cookie, queue and everything else)
  is unchanged, and nothing is notified or sent.
\<close>

lemma onPull_unknown_ack:
  assumes "r_lastMutationId r = Some M" and "M \<noteq> []"
    and "\<forall>m\<in>set (optimisticMutations c). mutationId m \<noteq> M"
  shows "onPull mutators r c = (None, c, [])"
proof -
  from assms(1,3)
  have "findIndex (\<lambda>m. Some (mutationId m) = r_lastMutationId r) (optimisticMutations c) = None"
    by (simp add: findIndex_None)
  with assms(1,2) show ?thesis by (simp add: onPull_def falsy_id_def)
qed

lemma onPull_unknown_ack_example:
  "(let c = fst (snd (mutate test_mutators ''m1'' ''add'' [JNum 2] (new_SyncKVClient ''c'')));
        r = \<lparr>r_cookie = 1, r_patch = [(''a'', JNum 1)], r_lastMutationId = Some ''m9''\<rparr>
    in map mutationId (optimisticMutations c) = [''m1'']
       \<and> onPull test_mutators r c = (None, c, []))"
proof -
  define c where "c = fst (snd (mutate test_mutators ''m1'' ''add'' [JNum 2] (new_SyncKVClient ''c'')))"
  define r where "r = \<lparr>r_cookie = 1, r_patch = [(''a'', JNum 1)], r_lastMutationId = Some ''m9''\<rparr>"
  have q: "map mutationId (optimisticMutations c) = [''m1'']"
    by (simp add: c_def mutate_def call_mutator_def test_mutators_def add_mutator_def
        new_Transaction_def new_SyncKVClient_def Transaction_get_def Transaction_set_def
        get_prop_def Let_def)
  then have "\<forall>m\<in>set (optimisticMutations c). mutationId m \<noteq> ''m9''" by auto
  moreover have "r_lastMutationId r = Some ''m9''" "''m9'' \<noteq> []" by (simp_all add: r_def)
  ultimately have "onPull test_mutators r c = (None, c, [])"
    by (intro onPull_unknown_ack) auto
  with q show ?thesis unfolding c_def[symmetric] r_def[symmetric] Let_def by simp
qed

text \<open>
  The same test keeps a record whose own id is the empty string from being acknowledged:
  the response that carries \<^verbatim>\<open>""\<close> is handled as an initial pull and the record stays in
  the queue.
\<close>

lemma onPull_keeps_record_with_empty_id:
  "(let c0 = fst (snd (onPull test_mutators \<lparr>r_cookie = 0, r_patch = [], r_lastMutationId = None\<rparr>
                        (new_SyncKVClient ''c'')));
        c = fst (snd (mutate test_mutators '''' ''add'' [JNum 2] c0));
        r = \<lparr>r_cookie = 1, r_patch = [(''value'', JNum 2)], r_lastMutationId = Some ''''\<rparr>;
        c' = fst (snd (onPull test_mutators r c))
    in map mutationId (optimisticMutations c) = ['''']
       \<and> map mutationId (optimisticMutations c') = [''''])"
  by (simp add: onPull_def falsy_id_def new_SyncKVClient_def object_assign_def object_keys_def
      mutate_def call_mutator_def test_mutators_def add_mutator_def new_Transaction_def
      Transaction_get_def Transaction_set_def get_prop_def set_prop_def Let_def)

text \<open>
  C6 (a response whose \<^verbatim>\<open>lastMutationId\<close> matches no record of the queue leaves the
  database, the cookie and the queue as they were and notifies nobody). The code looks the
  id up only after \<^verbatim>\<open>if (!lastMutationId)\<close>, which the empty string passes: a response
  carrying the id \<^verbatim>\<open>""\<close>, which matches no record of the (empty) queue, is handled as an
  initial pull, so its patch is assigned into the database, the cookie is set and the
  patch's keys are notified.
\<close>

theorem onPull_applies_unmatched_empty_id:
  "(let c = fst (snd (onPull test_mutators \<lparr>r_cookie = 0, r_patch = [], r_lastMutationId = None\<rparr>
                        (new_SyncKVClient ''c'')));
        r = \<lparr>r_cookie = 1, r_patch = [(''a'', JNum 1)], r_lastMutationId = Some ''''\<rparr>;
        c' = fst (snd (onPull test_mutators r c))
    in optimisticMutations c = [] \<and> db c = [] \<and> cookie c = Some 0
       \<and> db c' = [(''a'', JNum 1)] \<and> cookie c' = Some 1
       \<and> snd (snd (onPull test_mutators r c)) = [Notify ''a'' (JNum 1) []])"
  by (simp add: onPull_def falsy_id_def new_SyncKVClient_def object_assign_def object_keys_def
      get_prop_def set_prop_def emit_def SyncKVClient_get_def Let_def)

section \<open>Rebase keeps a mutation's identity\<close>

lemma rebase_only_patch:
  "rebase mutators d ms pe = (e, ms', pe') \<Longrightarrow>
     list_all2 (\<lambda>m' m. \<exists>p. m' = m\<lparr>patch := p\<rparr>) ms' ms"
proof (induction ms arbitrary: pe e ms' pe')
  case Nil
  then show ?case by simp
next
  case (Cons m ms)
  show ?case
  proof (cases "call_mutator Transaction_get Transaction_set mutators (key m) (args m) (new_Transaction d)")
    case (Inl err)
    with Cons.prems have "ms' = m # ms" by simp
    moreover have "list_all2 (\<lambda>m' m. \<exists>p. m' = m\<lparr>patch := p\<rparr>) (m # ms) (m # ms)"
      by (rule list_all2_refl) (metis OptimisticMutationRecord.update_convs(1) OptimisticMutationRecord.surjective)
    ultimately show ?thesis by simp
  next
    case (Inr tx)
    obtain e1 ms1 pe1 where r: "rebase mutators d ms (object_assign pe (tx_patch tx)) = (e1, ms1, pe1)"
      by (cases "rebase mutators d ms (object_assign pe (tx_patch tx))") auto
    with Inr Cons.prems have "ms' = m\<lparr>patch := tx_patch tx\<rparr> # ms1" by simp
    with Cons.IH[OF r] show ?thesis by auto
  qed
qed

lemma only_patch_mutationId:
  "list_all2 (\<lambda>m' m. \<exists>p. m' = m\<lparr>patch := p\<rparr>) ms' ms \<Longrightarrow> map mutationId ms' = map mutationId ms"
  by (induction rule: list_all2_induct) auto

lemma findIndex_cong_map:
  "map f xs = map f ys \<Longrightarrow> findIndex (\<lambda>x. Q (f x)) xs = findIndex (\<lambda>x. Q (f x)) ys"
proof (induction xs arbitrary: ys)
  case Nil
  then show ?case by simp
next
  case (Cons x xs)
  then obtain y ys' where "ys = y # ys'" "f x = f y" "map f xs = map f ys'" by (cases ys) auto
  with Cons.IH[of ys'] show ?case by simp
qed

lemma self_only_patch:
  "list_all2 (\<lambda>m' m. \<exists>p. m' = m\<lparr>patch := p\<rparr>) (ms :: OptimisticMutationRecord list) ms"
  by (rule list_all2_refl) (metis OptimisticMutationRecord.update_convs(1) OptimisticMutationRecord.surjective)

text \<open>
  C10. Whatever \<^verbatim>\<open>onPull\<close> does (initial pull, unknown acknowledgement, rebase, or an
  exception in the middle of a rebase), the queue it leaves is the old queue without some
  prefix, and each remaining record is the old record with at most its patch replaced:
  \<^verbatim>\<open>mutationId\<close>, \<^verbatim>\<open>key\<close> and \<^verbatim>\<open>args\<close> are the old ones. So looking a mutation
  id up in the new queue finds the same position as in the remaining old records.
\<close>

theorem onPull_keeps_identity:
  assumes "onPull mutators r c = (e, c', effs)"
  shows "\<exists>n. list_all2 (\<lambda>m' m. \<exists>p. m' = m\<lparr>patch := p\<rparr>)
                (optimisticMutations c') (drop n (optimisticMutations c))
            \<and> map mutationId (optimisticMutations c') = drop n (map mutationId (optimisticMutations c))
            \<and> map key (optimisticMutations c') = drop n (map key (optimisticMutations c))
            \<and> map args (optimisticMutations c') = drop n (map args (optimisticMutations c))
            \<and> (\<forall>M. findIndex (\<lambda>m. mutationId m = M) (optimisticMutations c')
                   = findIndex (\<lambda>m. mutationId m = M) (drop n (optimisticMutations c)))"
proof -
  let ?R = "\<lambda>m' m. \<exists>p. m' = m\<lparr>patch := p\<rparr>"
  let ?q = "optimisticMutations c"
  have "\<exists>n. list_all2 ?R (optimisticMutations c') (drop n ?q)"
  proof (cases "falsy_id (r_lastMutationId r)")
    case True
    with assms have "optimisticMutations c' = ?q"
      by (auto simp: onPull_def Let_def split: if_splits)
    then have "list_all2 ?R (optimisticMutations c') (drop 0 ?q)"
      using self_only_patch[of ?q] by simp
    then show ?thesis by blast
  next
    case False
    show ?thesis
    proof (cases "findIndex (\<lambda>m. Some (mutationId m) = r_lastMutationId r) ?q")
      case None
      with False assms have "optimisticMutations c' = ?q" by (simp add: onPull_def)
      then have "list_all2 ?R (optimisticMutations c') (drop 0 ?q)"
        using self_only_patch[of ?q] by simp
      then show ?thesis by blast
    next
      case (Some i)
      obtain e1 rebased pe where
        rb: "rebase mutators (object_assign (db c) (r_patch r)) (drop (Suc i) ?q) (r_patch r)
               = (e1, rebased, pe)"
        by (cases "rebase mutators (object_assign (db c) (r_patch r)) (drop (Suc i) ?q) (r_patch r)") auto
      from rebase_only_patch[OF rb] have R: "list_all2 ?R rebased (drop (Suc i) ?q)" .
      show ?thesis
      proof (cases e1)
        case None
        with False Some rb assms
        have "optimisticMutations c' = drop (Suc i) (take (Suc i) ?q @ rebased)"
          by (auto simp: onPull_def Let_def)
        moreover from R have "length rebased = length ?q - Suc i"
          by (auto dest: list_all2_lengthD)
        ultimately have "optimisticMutations c' = rebased"
          by (cases "Suc i \<le> length ?q") auto
        with R show ?thesis by blast
      next
        case (Some err)
        with False \<open>findIndex _ ?q = Some i\<close> rb assms
        have "optimisticMutations c' = take (Suc i) ?q @ rebased"
          by (auto simp: onPull_def Let_def)
        moreover have "list_all2 ?R (take (Suc i) ?q @ rebased) (take (Suc i) ?q @ drop (Suc i) ?q)"
          using self_only_patch[of "take (Suc i) ?q"] R by (rule list_all2_appendI)
        ultimately have "list_all2 ?R (optimisticMutations c') (drop 0 ?q)" by simp
        then show ?thesis by blast
      qed
    qed
  qed
  then obtain n where n: "list_all2 ?R (optimisticMutations c') (drop n ?q)" by blast
  then have ids: "map mutationId (optimisticMutations c') = map mutationId (drop n ?q)"
    by (rule only_patch_mutationId)
  from n have keys: "map key (optimisticMutations c') = map key (drop n ?q)"
    by (induction rule: list_all2_induct) auto
  from n have as: "map args (optimisticMutations c') = map args (drop n ?q)"
    by (induction rule: list_all2_induct) auto
  have "\<forall>M. findIndex (\<lambda>m. mutationId m = M) (optimisticMutations c')
                   = findIndex (\<lambda>m. mutationId m = M) (drop n ?q)"
  proof
    fix M
    show "findIndex (\<lambda>m. mutationId m = M) (optimisticMutations c')
            = findIndex (\<lambda>m. mutationId m = M) (drop n ?q)"
      using findIndex_cong_map[OF ids, of "\<lambda>x. x = M"] .
  qed
  with n ids keys as show ?thesis by (auto simp: drop_map)
qed

theorem onPull_keeps_identity_witness:
  "(let c0 = fst (snd (onPull test_mutators \<lparr>r_cookie = 0, r_patch = [], r_lastMutationId = None\<rparr>
                        (new_SyncKVClient ''c'')));
        c1 = fst (snd (mutate test_mutators ''m1'' ''add'' [JNum 2] c0));
        c2 = fst (snd (mutate test_mutators ''m2'' ''add'' [JNum 3] c1));
        r = \<lparr>r_cookie = 1, r_patch = [(''value'', JNum 2)], r_lastMutationId = Some ''m1''\<rparr>;
        c3 = fst (snd (onPull test_mutators r c2))
    in map mutationId (optimisticMutations c2) = [''m1'', ''m2'']
       \<and> map patch (optimisticMutations c2) = [[(''value'', JNum 2)], [(''value'', JNum 3)]]
       \<and> map mutationId (optimisticMutations c3) = [''m2'']
       \<and> map key (optimisticMutations c3) = [''add'']
       \<and> map args (optimisticMutations c3) = [[JNum 3]]
       \<and> map patch (optimisticMutations c3) = [[(''value'', JNum 5)]]
       \<and> (\<exists>n. map mutationId (optimisticMutations c3) = drop n (map mutationId (optimisticMutations c2))))"
proof -
  define c2 where "c2 = fst (snd (mutate test_mutators ''m2'' ''add'' [JNum 3]
      (fst (snd (mutate test_mutators ''m1'' ''add'' [JNum 2]
        (fst (snd (onPull test_mutators \<lparr>r_cookie = 0, r_patch = [], r_lastMutationId = None\<rparr>
                        (new_SyncKVClient ''c'')))))))))"
  define r where "r = \<lparr>r_cookie = 1, r_patch = [(''value'', JNum 2)], r_lastMutationId = Some ''m1''\<rparr>"
  define c3 where "c3 = fst (snd (onPull test_mutators r c2))"
  have q2: "optimisticMutations c2 =
      [\<lparr>mutationId = ''m1'', key = ''add'', args = [JNum 2], patch = [(''value'', JNum 2)]\<rparr>,
       \<lparr>mutationId = ''m2'', key = ''add'', args = [JNum 3], patch = [(''value'', JNum 3)]\<rparr>]"
    and db2: "db c2 = []"
    by (simp_all add: c2_def onPull_def falsy_id_def new_SyncKVClient_def object_assign_def
      object_keys_def mutate_def call_mutator_def test_mutators_def add_mutator_def
      new_Transaction_def Transaction_get_def Transaction_set_def get_prop_def set_prop_def Let_def)
  have q3: "optimisticMutations c3 =
      [\<lparr>mutationId = ''m2'', key = ''add'', args = [JNum 3], patch = [(''value'', JNum 5)]\<rparr>]"
    by (simp add: c3_def r_def onPull_def falsy_id_def q2 db2 object_assign_def
      object_keys_def call_mutator_def test_mutators_def add_mutator_def
      new_Transaction_def Transaction_get_def Transaction_set_def get_prop_def set_prop_def Let_def)
  have "onPull test_mutators r c2 = (fst (onPull test_mutators r c2), c3, snd (snd (onPull test_mutators r c2)))"
    by (simp add: c3_def)
  from onPull_keeps_identity[OF this]
  have "\<exists>n. map mutationId (optimisticMutations c3) = drop n (map mutationId (optimisticMutations c2))"
    by blast
  with q2 q3 show ?thesis
    unfolding c2_def[symmetric] r_def[symmetric] c3_def[symmetric] Let_def by simp
qed

section \<open>Objects: assignment and spread\<close>

lemma map_of_set_prop: "map_of (set_prop k v obj) = (map_of obj)(k \<mapsto> v)"
  by (simp add: set_prop_def AList.update_conv')

lemma map_of_fold_set_prop:
  "map_of (fold (\<lambda>k t. set_prop k (g k) t) ks t) =
     (\<lambda>k. if k \<in> set ks then Some (g k) else map_of t k)"
proof (induction ks arbitrary: t)
  case Nil
  then show ?case by simp
next
  case (Cons k ks)
  show ?case
    by (simp add: Cons.IH map_of_set_prop fun_eq_iff)
qed

lemma keys_fold_set_prop:
  "set (object_keys (fold (\<lambda>k t. set_prop k (g k) t) ks t)) = set (object_keys t) \<union> set ks"
proof (induction ks arbitrary: t)
  case Nil
  then show ?case by simp
next
  case (Cons k ks)
  have "set (object_keys (set_prop k (g k) t)) = insert k (set (object_keys t))"
    using AList.dom_update[of k "g k" t] by (simp add: object_keys_def set_prop_def)
  then show ?case by (auto simp: Cons.IH)
qed

lemma object_keys_object_assign:
  "set (object_keys (object_assign target src)) = set (object_keys target) \<union> set (object_keys src)"
  by (simp add: object_assign_def keys_fold_set_prop)

lemma map_of_object_assign:
  "map_of (object_assign target src) = map_of target ++ map_of src"
proof
  fix k
  show "map_of (object_assign target src) k = (map_of target ++ map_of src) k"
  proof (cases "map_of src k")
    case None
    then have "k \<notin> set (object_keys src)"
      by (simp add: object_keys_def map_of_eq_None_iff)
    with None show ?thesis
      by (simp add: object_assign_def map_of_fold_set_prop map_add_def)
  next
    case (Some v)
    then have "k \<in> set (object_keys src)"
      using map_of_eq_None_iff[of src k] by (simp add: object_keys_def)
    with Some show ?thesis
      by (simp add: object_assign_def map_of_fold_set_prop map_add_def get_prop_def)
  qed
qed

lemma map_of_spread2: "map_of (spread2 a b) = map_of a ++ map_of b"
  by (simp add: spread2_def map_of_object_assign)

lemma has_key_spread2: "has_key k (spread2 a b) \<longleftrightarrow> has_key k a \<or> has_key k b"
  by (auto simp: has_key_def map_of_spread2 map_add_def split: option.splits)

lemma get_prop_spread2:
  "get_prop (spread2 a b) k = (if has_key k b then get_prop b k else get_prop a k)"
  by (auto simp: has_key_def get_prop_def map_of_spread2 map_add_def split: option.splits)

text \<open>
  The merge of \<^verbatim>\<open>pull\<close>, \<^verbatim>\<open>reduce((acc, patch) => ({ ...acc, ...patch }), {})\<close>: a key
  is in the result when some patch has it, and its value is the one in the newest such
  patch, which is what the newest-first scan finds.
\<close>

lemma has_key_merge:
  "has_key k (foldl spread2 acc ps) \<longleftrightarrow> has_key k acc \<or> (\<exists>p\<in>set ps. has_key k p)"
  by (induction ps rule: rev_induct) (auto simp: has_key_spread2)

lemma has_key_empty: "\<not> has_key k []"
  by (simp add: has_key_def)

lemma scan_no_hit: "\<forall>p\<in>set ps. \<not> has_key k p \<Longrightarrow> scan ps k = JUndefined"
  by (induction ps) auto

lemma get_prop_merge:
  "get_prop (foldl spread2 acc ps) k =
     (if \<exists>p\<in>set ps. has_key k p then scan (rev ps) k else get_prop acc k)"
proof (induction ps rule: rev_induct)
  case Nil
  then show ?case by simp
next
  case (snoc p ps)
  show ?case
  proof (cases "has_key k p")
    case True
    then show ?thesis by (simp add: get_prop_spread2)
  next
    case False
    then show ?thesis by (auto simp: get_prop_spread2 snoc.IH)
  qed
qed

lemma get_prop_merge_empty: "get_prop (foldl spread2 [] ps) k = scan (rev ps) k"
proof (cases "\<exists>p\<in>set ps. has_key k p")
  case True
  then show ?thesis by (simp add: get_prop_merge)
next
  case False
  then have "scan (rev ps) k = JUndefined" by (intro scan_no_hit) simp
  moreover from False have "get_prop (foldl spread2 [] ps) k = get_prop [] k"
    using get_prop_merge[of "[]" ps k] by simp
  ultimately show ?thesis by (simp add: get_prop_def)
qed

lemma js_slice_nonneg:
  "0 \<le> start \<Longrightarrow> js_slice xs start = drop (min (nat start) (length xs)) xs"
  by (simp add: js_slice_def Let_def min_def nat_le_iff)

section \<open>The server's version\<close>

text \<open>
  \<^verbatim>\<open>version\<close> is the length of the log: the constructor sets it so, and \<^verbatim>\<open>push\<close>
  (also when it throws) and \<^verbatim>\<open>pull\<close> keep it so.
\<close>

lemma version_new: "version (new_SyncKVServer st) = length (s_db (new_SyncKVServer st))"
  by (simp add: new_SyncKVServer_def Let_def)

lemma version_push:
  "version s = length (s_db s) \<Longrightarrow> SyncKVServer_push mutators cid mutations s = (e, s', effs) \<Longrightarrow>
     version s' = length (s_db s')"
  by (auto simp: SyncKVServer_push_def Let_def split: option.splits sum.splits if_splits)

lemma version_pull:
  "version s = length (s_db s) \<Longrightarrow> version (fst (SyncKVServer_pull cid ck s)) =
     length (s_db (fst (SyncKVServer_pull cid ck s)))"
  by (simp add: SyncKVServer_pull_def Let_def)

section \<open>Pull merges the patches since the cookie\<close>

text \<open>
  C4. For a cookie \<open>c \<ge> 0\<close> and log \<open>L\<close>, the returned patch is the left-to-right
  overwrite merge of the suffix \<open>L[min(c, |L|)..]\<close>: its keys are the keys of the suffix's
  patches, and each key's value is the one in the newest suffix patch that has the key. The
  returned cookie is \<open>|L|\<close>, which is the server's version, and a cookie beyond \<open>|L|\<close>
  gives the empty patch. An omitted cookie counts as 0. The log and the version are not
  changed by the pull.
\<close>

theorem pull_merges_suffix:
  assumes "0 \<le> c" and "version s = length (s_db s)"
  shows "(let (s', resp) = SyncKVServer_pull cid (Some c) s;
              suffix = drop (min (nat c) (length (s_db s))) (s_db s)
          in r_patch resp = foldl spread2 [] suffix
             \<and> (\<forall>k. has_key k (r_patch resp) \<longleftrightarrow> (\<exists>p\<in>set suffix. has_key k p))
             \<and> (\<forall>k. get_prop (r_patch resp) k = scan (rev suffix) k)
             \<and> r_cookie resp = int (length (s_db s))
             \<and> r_cookie resp = int (version s)
             \<and> (int (version s) < c \<longrightarrow> r_patch resp = [])
             \<and> (c = 0 \<longrightarrow> SyncKVServer_pull cid None s = (s', resp))
             \<and> s_db s' = s_db s \<and> version s' = version s)"
proof -
  let ?suffix = "drop (min (nat c) (length (s_db s))) (s_db s)"
  obtain s' resp where p: "SyncKVServer_pull cid (Some c) s = (s', resp)"
    by (cases "SyncKVServer_pull cid (Some c) s") auto
  from p assms(1) have patch: "r_patch resp = foldl spread2 [] ?suffix"
    by (auto simp: SyncKVServer_pull_def Let_def js_slice_nonneg)
  from p have ck: "r_cookie resp = int (length (s_db s))"
    by (auto simp: SyncKVServer_pull_def Let_def)
  from p have frame: "s_db s' = s_db s" "version s' = version s"
    by (auto simp: SyncKVServer_pull_def Let_def)
  have keys: "\<forall>k. has_key k (r_patch resp) \<longleftrightarrow> (\<exists>p\<in>set ?suffix. has_key k p)"
    by (simp add: patch has_key_merge has_key_empty)
  have vals: "\<forall>k. get_prop (r_patch resp) k = scan (rev ?suffix) k"
    by (simp add: patch get_prop_merge_empty)
  have ahead: "int (version s) < c \<longrightarrow> r_patch resp = []"
    using assms by (auto simp: patch)
  have dflt: "c = 0 \<longrightarrow> SyncKVServer_pull cid None s = (s', resp)"
    using p by (auto simp: SyncKVServer_pull_def)
  from patch keys vals ck assms(2) ahead dflt frame show ?thesis
    unfolding p Let_def by simp
qed

theorem pull_merges_suffix_witness:
  "(let s = \<lparr>s_db = [[(''a'', JNum 1)], [(''a'', JNum 2), (''b'', JNum 3)], [(''b'', JNum 4)]],
             version = 3, lastMutationIds = (\<lambda>c. None), clients = []\<rparr>
    in r_patch (snd (SyncKVServer_pull ''c'' (Some 1) s)) = [(''a'', JNum 2), (''b'', JNum 4)]
       \<and> get_prop (r_patch (snd (SyncKVServer_pull ''c'' (Some 1) s))) ''b'' = JNum 4
       \<and> r_cookie (snd (SyncKVServer_pull ''c'' (Some 1) s)) = 3
       \<and> r_patch (snd (SyncKVServer_pull ''c'' (Some 5) s)) = []
       \<and> r_patch (snd (SyncKVServer_pull ''c'' None s)) = [(''a'', JNum 2), (''b'', JNum 4)])"
proof -
  define s where "s = \<lparr>s_db = [[(''a'', JNum 1)], [(''a'', JNum 2), (''b'', JNum 3)], [(''b'', JNum 4)]],
             version = 3, lastMutationIds = (\<lambda>c. None), clients = []\<rparr>"
  have v: "version s = length (s_db s)" by (simp add: s_def)
  have c1: "0 \<le> (1::int)" and c5: "0 \<le> (5::int)" and c0: "0 \<le> (0::int)" by simp_all
  note at1 = pull_merges_suffix[OF c1 v, of "''c''", unfolded Let_def case_prod_beta]
  note at5 = pull_merges_suffix[OF c5 v, of "''c''", unfolded Let_def case_prod_beta]
  note at0 = pull_merges_suffix[OF c0 v, of "''c''", unfolded Let_def case_prod_beta]
  from at1
  have p1: "r_patch (snd (SyncKVServer_pull ''c'' (Some 1) s))
              = foldl spread2 [] (drop (min (nat 1) (length (s_db s))) (s_db s))"
    and g1: "get_prop (r_patch (snd (SyncKVServer_pull ''c'' (Some 1) s))) ''b''
              = scan (rev (drop (min (nat 1) (length (s_db s))) (s_db s))) ''b''"
    and k1: "r_cookie (snd (SyncKVServer_pull ''c'' (Some 1) s)) = int (version s)"
    by blast+
  have "int (version s) < 5" by (simp add: s_def)
  with at5 have p5: "r_patch (snd (SyncKVServer_pull ''c'' (Some 5) s)) = []"
    by blast
  from at0 have "SyncKVServer_pull ''c'' None s =
      (fst (SyncKVServer_pull ''c'' (Some 0) s), snd (SyncKVServer_pull ''c'' (Some 0) s))"
    by blast
  then have "snd (SyncKVServer_pull ''c'' None s) = snd (SyncKVServer_pull ''c'' (Some 0) s)"
    by simp
  moreover from at0 have "r_patch (snd (SyncKVServer_pull ''c'' (Some 0) s))
              = foldl spread2 [] (drop (min (nat 0) (length (s_db s))) (s_db s))"
    by blast
  ultimately have p0: "r_patch (snd (SyncKVServer_pull ''c'' None s))
              = foldl spread2 [] (drop (min (nat 0) (length (s_db s))) (s_db s))"
    by simp
  have e1: "foldl spread2 [] (drop (min (nat 1) (length (s_db s))) (s_db s))
              = [(''a'', JNum 2), (''b'', JNum 4)]"
    by (simp add: s_def spread2_def object_assign_def object_keys_def set_prop_def get_prop_def)
  have e0: "foldl spread2 [] (drop (min (nat 0) (length (s_db s))) (s_db s))
              = [(''a'', JNum 2), (''b'', JNum 4)]"
    by (simp add: s_def spread2_def object_assign_def object_keys_def set_prop_def get_prop_def)
  have e2: "scan (rev (drop (min (nat 1) (length (s_db s))) (s_db s))) ''b'' = JNum 4"
    by (simp add: s_def has_key_def get_prop_def)
  have e3: "int (version s) = 3" by (simp add: s_def)
  from p1 g1 k1 p5 p0 e1 e0 e2 e3 show ?thesis
    unfolding s_def[symmetric] Let_def by simp
qed

section \<open>Pull with an acknowledgement\<close>

text \<open>
  When every mutator of the remaining records is registered and returns normally on the
  updated database, the rebase loop ends normally: each record gets the patch its mutator
  has just computed, and \<^verbatim>\<open>patchToEmit\<close> gains exactly the keys of those patches.
\<close>

lemma rebase_ok:
  assumes "\<forall>m\<in>set ms. \<exists>tx.
             call_mutator Transaction_get Transaction_set mutators (key m) (args m) (new_Transaction d)
               = Inr tx"
  shows "\<exists>ms' pe'. rebase mutators d ms pe = (None, ms', pe')
           \<and> list_all2 (\<lambda>m' m. \<exists>tx.
                 call_mutator Transaction_get Transaction_set mutators (key m) (args m) (new_Transaction d)
                   = Inr tx \<and> m' = m\<lparr>patch := tx_patch tx\<rparr>) ms' ms
           \<and> set (object_keys pe') = set (object_keys pe) \<union> (\<Union>m'\<in>set ms'. set (object_keys (patch m')))"
  using assms
proof (induction ms arbitrary: pe)
  case Nil
  then show ?case by simp
next
  case (Cons m ms)
  from Cons.prems obtain tx where
    tx: "call_mutator Transaction_get Transaction_set mutators (key m) (args m) (new_Transaction d) = Inr tx"
    by auto
  from Cons.prems have "\<forall>m\<in>set ms. \<exists>tx.
      call_mutator Transaction_get Transaction_set mutators (key m) (args m) (new_Transaction d) = Inr tx"
    by simp
  from Cons.IH[OF this, of "object_assign pe (tx_patch tx)"]
  obtain ms1 pe1 where
    r: "rebase mutators d ms (object_assign pe (tx_patch tx)) = (None, ms1, pe1)"
    and R: "list_all2 (\<lambda>m' m. \<exists>tx.
                 call_mutator Transaction_get Transaction_set mutators (key m) (args m) (new_Transaction d)
                   = Inr tx \<and> m' = m\<lparr>patch := tx_patch tx\<rparr>) ms1 ms"
    and K: "set (object_keys pe1) = set (object_keys (object_assign pe (tx_patch tx)))
              \<union> (\<Union>m'\<in>set ms1. set (object_keys (patch m')))"
    by blast
  have "rebase mutators d (m # ms) pe = (None, m\<lparr>patch := tx_patch tx\<rparr> # ms1, pe1)"
    by (simp add: tx r)
  moreover have "list_all2 (\<lambda>m' m. \<exists>tx.
                 call_mutator Transaction_get Transaction_set mutators (key m) (args m) (new_Transaction d)
                   = Inr tx \<and> m' = m\<lparr>patch := tx_patch tx\<rparr>) (m\<lparr>patch := tx_patch tx\<rparr> # ms1) (m # ms)"
    using tx R by simp
  moreover have "set (object_keys pe1) = set (object_keys pe)
       \<union> (\<Union>m'\<in>set (m\<lparr>patch := tx_patch tx\<rparr> # ms1). set (object_keys (patch m')))"
    by (auto simp: K object_keys_object_assign)
  ultimately show ?case by blast
qed

text \<open>
  C3 as stated (whenever the response's \<^verbatim>\<open>lastMutationId\<close> is the id of a record at
  position \<open>i\<close>, the records up to \<open>i\<close> are discarded, the later ones re-executed, the
  cookie set and the keys notified) fails in two ways. First, the rebase loop has no
  \<^verbatim>\<open>try\<close>: when a re-executed mutator throws, \<^verbatim>\<open>onPull\<close> throws with the server patch
  already assigned into the database, and nothing is discarded, the cookie keeps its old
  value and nobody is notified. Here \<^verbatim>\<open>claim("me")\<close> was accepted locally and the server
  then reports the owner \<^verbatim>\<open>"you"\<close>. Second, \<^verbatim>\<open>findIndex\<close> finds the first record with
  the id: when two records carry the same id, the one at the later position is not
  discarded but re-executed.
\<close>

theorem onPull_ack_counterexample:
  "(let c0 = fst (snd (onPull claim_mutators \<lparr>r_cookie = 0, r_patch = [], r_lastMutationId = None\<rparr>
                        (new_SyncKVClient ''c'')));
        c1 = fst (snd (mutate claim_mutators ''m1'' ''add'' [JNum 2] c0));
        c2 = fst (snd (mutate claim_mutators ''m2'' ''claim'' [JStr ''me''] c1));
        r = \<lparr>r_cookie = 2, r_patch = [(''owner'', JStr ''you''), (''value'', JNum 2)],
             r_lastMutationId = Some ''m1''\<rparr>;
        out = onPull claim_mutators r c2;
        d1 = fst (snd (mutate claim_mutators ''m1'' ''add'' [JNum 3] c1));
        r' = \<lparr>r_cookie = 1, r_patch = [(''value'', JNum 2)], r_lastMutationId = Some ''m1''\<rparr>;
        out' = onPull claim_mutators r' d1
    in map mutationId (optimisticMutations c2) = [''m1'', ''m2'']
       \<and> cookie c2 = Some 0
       \<and> fst out = Some MutatorError
       \<and> map mutationId (optimisticMutations (fst (snd out))) = [''m1'', ''m2'']
       \<and> cookie (fst (snd out)) = Some 0
       \<and> snd (snd out) = []
       \<and> map mutationId (optimisticMutations d1) = [''m1'', ''m1'']
       \<and> fst out' = None
       \<and> map mutationId (optimisticMutations (fst (snd out'))) = [''m1''])"
  by (simp add: onPull_def falsy_id_def new_SyncKVClient_def object_assign_def object_keys_def
      mutate_def call_mutator_def claim_mutators_def add_mutator_def claim_mutator_def
      new_Transaction_def Transaction_get_def Transaction_set_def get_prop_def set_prop_def
      emit_def SyncKVClient_get_def has_key_def Let_def)

text \<open>
  C3, amended. Let the response carry a non-empty \<^verbatim>\<open>lastMutationId = M\<close>, let \<open>i\<close> be the
  first position of the queue whose record has id \<open>M\<close>, and let the mutator of every record
  after \<open>i\<close> be registered and return normally on the database updated with the server
  patch. Then \<^verbatim>\<open>onPull\<close> returns normally and changes only the database, the queue and the
  cookie: the database is the old one with the server patch assigned into it; the queue is
  the records after \<open>i\<close> (every record at a position \<open>\<le> i\<close> is gone), each with its patch
  replaced by the one its mutator has just computed on a fresh transaction over the updated
  database; the cookie is the response's; and exactly the keys of the server patch and of
  the rebased patches are notified, each with the key's value in the final state.
\<close>

theorem onPull_acknowledged:
  assumes "r_lastMutationId r = Some M" and "M \<noteq> []"
    and "i < length (optimisticMutations c)" and "mutationId (optimisticMutations c ! i) = M"
    and "\<forall>j<i. mutationId (optimisticMutations c ! j) \<noteq> M"
    and "\<forall>m\<in>set (drop (Suc i) (optimisticMutations c)). \<exists>tx.
           call_mutator Transaction_get Transaction_set mutators (key m) (args m)
             (new_Transaction (object_assign (db c) (r_patch r))) = Inr tx"
  shows "\<exists>c' ks. onPull mutators r c = (None, c', map (emit c') ks)
           \<and> c' = c\<lparr>db := object_assign (db c) (r_patch r),
                     optimisticMutations := optimisticMutations c',
                     cookie := Some (r_cookie r)\<rparr>
           \<and> list_all2 (\<lambda>m' m. \<exists>tx.
                 call_mutator Transaction_get Transaction_set mutators (key m) (args m)
                   (new_Transaction (db c')) = Inr tx \<and> m' = m\<lparr>patch := tx_patch tx\<rparr>)
               (optimisticMutations c') (drop (Suc i) (optimisticMutations c))
           \<and> set ks = set (object_keys (r_patch r))
                        \<union> (\<Union>m'\<in>set (optimisticMutations c'). set (object_keys (patch m')))"
proof -
  let ?q = "optimisticMutations c"
  let ?d = "object_assign (db c) (r_patch r)"
  from assms(1,3,4,5)
  have idx: "findIndex (\<lambda>m. Some (mutationId m) = r_lastMutationId r) ?q = Some i"
    by (intro findIndex_first) auto
  from rebase_ok[OF assms(6), of "r_patch r"]
  obtain ms' pe' where
    rb: "rebase mutators ?d (drop (Suc i) ?q) (r_patch r) = (None, ms', pe')"
    and R: "list_all2 (\<lambda>m' m. \<exists>tx.
                 call_mutator Transaction_get Transaction_set mutators (key m) (args m) (new_Transaction ?d)
                   = Inr tx \<and> m' = m\<lparr>patch := tx_patch tx\<rparr>) ms' (drop (Suc i) ?q)"
    and K: "set (object_keys pe') = set (object_keys (r_patch r))
              \<union> (\<Union>m'\<in>set ms'. set (object_keys (patch m')))"
    by blast
  define c' where "c' = c\<lparr>db := ?d, optimisticMutations := ms', cookie := Some (r_cookie r)\<rparr>"
  from assms(3) have "drop (Suc i) (take (Suc i) ?q @ ms') = ms'" by simp
  with assms(1,2) idx rb
  have "onPull mutators r c = (None, c', map (emit c') (object_keys pe'))"
    by (simp add: onPull_def falsy_id_def Let_def c'_def)
  moreover have "c' = c\<lparr>db := ?d, optimisticMutations := optimisticMutations c',
                         cookie := Some (r_cookie r)\<rparr>"
    by (simp add: c'_def)
  moreover from R have "list_all2 (\<lambda>m' m. \<exists>tx.
                 call_mutator Transaction_get Transaction_set mutators (key m) (args m)
                   (new_Transaction (db c')) = Inr tx \<and> m' = m\<lparr>patch := tx_patch tx\<rparr>)
               (optimisticMutations c') (drop (Suc i) ?q)"
    by (simp add: c'_def)
  moreover from K have "set (object_keys pe') = set (object_keys (r_patch r))
                        \<union> (\<Union>m'\<in>set (optimisticMutations c'). set (object_keys (patch m')))"
    by (simp add: c'_def)
  ultimately show ?thesis by blast
qed

theorem onPull_acknowledged_witness:
  "(let c0 = fst (snd (onPull test_mutators \<lparr>r_cookie = 0, r_patch = [], r_lastMutationId = None\<rparr>
                        (new_SyncKVClient ''c'')));
        c1 = fst (snd (mutate test_mutators ''m1'' ''add'' [JNum 2] c0));
        c2 = fst (snd (mutate test_mutators ''m2'' ''add'' [JNum 3] c1));
        c3 = fst (snd (mutate test_mutators ''m3'' ''add'' [JNum 4] c2));
        r = \<lparr>r_cookie = 2, r_patch = [(''value'', JNum 5)], r_lastMutationId = Some ''m2''\<rparr>;
        out = onPull test_mutators r c3
    in map mutationId (optimisticMutations c3) = [''m1'', ''m2'', ''m3'']
       \<and> fst out = None
       \<and> db (fst (snd out)) = [(''value'', JNum 5)]
       \<and> cookie (fst (snd out)) = Some 2
       \<and> optimisticMutations (fst (snd out)) =
           [\<lparr>mutationId = ''m3'', key = ''add'', args = [JNum 4], patch = [(''value'', JNum 9)]\<rparr>]
       \<and> snd (snd out) = [Notify ''value'' (JNum 9) []])"
proof -
  define c3 where "c3 = fst (snd (mutate test_mutators ''m3'' ''add'' [JNum 4]
      (fst (snd (mutate test_mutators ''m2'' ''add'' [JNum 3]
        (fst (snd (mutate test_mutators ''m1'' ''add'' [JNum 2]
          (fst (snd (onPull test_mutators \<lparr>r_cookie = 0, r_patch = [], r_lastMutationId = None\<rparr>
                        (new_SyncKVClient ''c''))))))))))))"
  define r where "r = \<lparr>r_cookie = 2, r_patch = [(''value'', JNum 5)], r_lastMutationId = Some ''m2''\<rparr>"
  define out where "out = onPull test_mutators r c3"
  have q3: "optimisticMutations c3 =
      [\<lparr>mutationId = ''m1'', key = ''add'', args = [JNum 2], patch = [(''value'', JNum 2)]\<rparr>,
       \<lparr>mutationId = ''m2'', key = ''add'', args = [JNum 3], patch = [(''value'', JNum 3)]\<rparr>,
       \<lparr>mutationId = ''m3'', key = ''add'', args = [JNum 4], patch = [(''value'', JNum 4)]\<rparr>]"
    and db3: "db c3 = []" and subs3: "subscriptions c3 = (\<lambda>k. None)"
    by (simp_all add: c3_def onPull_def falsy_id_def new_SyncKVClient_def object_assign_def
      object_keys_def mutate_def call_mutator_def test_mutators_def add_mutator_def
      new_Transaction_def Transaction_get_def Transaction_set_def get_prop_def set_prop_def Let_def)
  have d: "object_assign (db c3) (r_patch r) = [(''value'', JNum 5)]"
    by (simp add: db3 r_def object_assign_def object_keys_def get_prop_def set_prop_def)
  have h1: "r_lastMutationId r = Some ''m2''" and h2: "''m2'' \<noteq> []" by (simp_all add: r_def)
  have h3: "1 < length (optimisticMutations c3)"
    and h4: "mutationId (optimisticMutations c3 ! 1) = ''m2''"
    and h5: "\<forall>j<1. mutationId (optimisticMutations c3 ! j) \<noteq> ''m2''"
    by (simp_all add: q3)
  have h6: "\<forall>m\<in>set (drop (Suc 1) (optimisticMutations c3)). \<exists>tx.
           call_mutator Transaction_get Transaction_set test_mutators (key m) (args m)
             (new_Transaction (object_assign (db c3) (r_patch r))) = Inr tx"
    by (simp add: q3 d call_mutator_def test_mutators_def add_mutator_def new_Transaction_def
        Transaction_get_def Transaction_set_def get_prop_def)
  from onPull_acknowledged[OF h1 h2 h3 h4 h5 h6]
  obtain c' ks where
    o: "onPull test_mutators r c3 = (None, c', map (emit c') ks)"
    and c': "c' = c3\<lparr>db := object_assign (db c3) (r_patch r),
                     optimisticMutations := optimisticMutations c',
                     cookie := Some (r_cookie r)\<rparr>"
    and rebased: "list_all2 (\<lambda>m' m. \<exists>tx.
                 call_mutator Transaction_get Transaction_set test_mutators (key m) (args m)
                   (new_Transaction (db c')) = Inr tx \<and> m' = m\<lparr>patch := tx_patch tx\<rparr>)
               (optimisticMutations c') (drop (Suc 1) (optimisticMutations c3))"
    by blast
  from o have a: "fst out = None" and b: "fst (snd out) = c'" by (simp_all add: out_def)
  have "db c' = object_assign (db c3) (r_patch r)" by (subst c') simp
  with d have dbc: "db c' = [(''value'', JNum 5)]" by simp
  have "cookie c' = Some (r_cookie r)" by (subst c') simp
  then have ck: "cookie c' = Some 2" by (simp add: r_def)
  from rebased have q: "optimisticMutations c' =
           [\<lparr>mutationId = ''m3'', key = ''add'', args = [JNum 4], patch = [(''value'', JNum 9)]\<rparr>]"
    by (simp add: q3 dbc list_all2_Cons2 call_mutator_def test_mutators_def add_mutator_def
        new_Transaction_def Transaction_get_def Transaction_set_def get_prop_def set_prop_def)
  have n: "snd (snd out) = [Notify ''value'' (JNum 9) []]"
    by (simp add: out_def r_def onPull_def falsy_id_def q3 db3 subs3 object_assign_def
      object_keys_def call_mutator_def test_mutators_def add_mutator_def
      new_Transaction_def Transaction_get_def Transaction_set_def get_prop_def set_prop_def
      emit_def SyncKVClient_get_def has_key_def Let_def)
  from q3 a b dbc ck q n show ?thesis
    unfolding c3_def[symmetric] r_def[symmetric] out_def[symmetric] Let_def by simp
qed

end
